theory Spec2Isabelle
  imports Complex_Main
begin

section \<open>Strings of the detector\<close>

text \<open>
  The detector of \<^verbatim>\<open>ml_defect_detector_simple.py\<close> works on Python strings. A
  \<^typ>\<open>char\<close> stands for one code point below 256; confidences, which the source
  computes in binary floating point, are exact rationals here.
\<close>

definition is_space :: "char \<Rightarrow> bool" where
  \<comment> \<open>the characters \<^verbatim>\<open>str.strip()\<close> removes: tab to carriage return, the four
     separators 0x1C to 0x1F, the space, NEL and the no-break space\<close>
  "is_space c \<longleftrightarrow> c \<in> set [CHR 0x09, CHR 0x0A, CHR 0x0B, CHR 0x0C, CHR 0x0D,
       CHR 0x1C, CHR 0x1D, CHR 0x1E, CHR 0x1F, CHR 0x20, CHR 0x85, CHR 0xA0]"

definition strip :: "string \<Rightarrow> string" where
  "strip s = rev (dropWhile is_space (rev (dropWhile is_space s)))"

definition lower_char :: "char \<Rightarrow> char" where
  \<comment> \<open>\<^verbatim>\<open>A\<close> to \<^verbatim>\<open>Z\<close>, and the capital letters of 0xC0 to 0xDE (0xD7 is the
     multiplication sign)\<close>
  "lower_char c =
     (let n = (of_char c :: nat)
      in if (65 \<le> n \<and> n \<le> 90) \<or> (192 \<le> n \<and> n \<le> 222 \<and> n \<noteq> 215)
         then char_of (n + 32) else c)"

definition lower :: "string \<Rightarrow> string" where
  "lower s = map lower_char s"

definition starts_with :: "string \<Rightarrow> string \<Rightarrow> bool" where
  "starts_with s k \<longleftrightarrow> take (length k) s = k"

fun contains :: "string \<Rightarrow> string \<Rightarrow> bool" where
  \<comment> \<open>\<^verbatim>\<open>keyword in sentence\<close>\<close>
  "contains k [] = (k = [])"
| "contains k (c # cs) = (starts_with (c # cs) k \<or> contains k cs)"


section \<open>The fragment of Python's regular expressions the detector uses\<close>

text \<open>
  The pattern tables use literal characters, character sets \<^verbatim>\<open>[...]\<close> and the
  quantifier \<^verbatim>\<open>?\<close> only. \<open>re_compile\<close> reads a pattern of that fragment; it
  answers \<open>None\<close> on a pattern Python rejects (a \<^verbatim>\<open>?\<close> with nothing to repeat, an
  unterminated set) and on every construct outside the fragment.
\<close>

datatype atom = Lit char | Cls "char list"

type_synonym regex = "(atom \<times> bool) list"
  \<comment> \<open>an atom and whether \<^verbatim>\<open>?\<close> follows it\<close>

datatype pstate = Top | InSet "char list"

definition is_meta :: "char \<Rightarrow> bool" where
  "is_meta c \<longleftrightarrow> c \<in> set (CHR 0x5C # ''.^$*+{}]|()'')"

fun re_parse :: "pstate \<Rightarrow> regex \<Rightarrow> string \<Rightarrow> regex option" where
  "re_parse Top acc [] = Some (rev acc)"
| "re_parse (InSet xs) acc [] = None"
| "re_parse Top acc (c # cs) =
     (if c = CHR ''['' then re_parse (InSet []) acc cs
      else if c = CHR ''?'' then
        (case acc of
           [] \<Rightarrow> None
         | (a, opt) # acc' \<Rightarrow> if opt then None else re_parse Top ((a, True) # acc') cs)
      else if is_meta c then None
      else re_parse Top ((Lit c, False) # acc) cs)"
| "re_parse (InSet xs) acc (c # cs) =
     (if c = CHR '']'' \<and> xs \<noteq> [] then re_parse Top ((Cls (rev xs), False) # acc) cs
      else if c = CHR 0x5C \<or> c = CHR ''['' then None
      else if c = CHR ''^'' \<and> xs = [] then None
      else if c = CHR ''-'' \<and> xs \<noteq> [] \<and> take 1 cs \<noteq> '']'' then None
      else re_parse (InSet (c # xs)) acc cs)"

definition re_compile :: "string \<Rightarrow> regex option" where
  "re_compile p = re_parse Top [] p"

fun atom_ok :: "atom \<Rightarrow> char \<Rightarrow> bool" where
  "atom_ok (Lit a) c = (a = c)"
| "atom_ok (Cls xs) c = (c \<in> set xs)"

fun match_here :: "regex \<Rightarrow> string \<Rightarrow> bool" where
  \<comment> \<open>some match of the whole expression starts at the head of the string\<close>
  "match_here [] s = True"
| "match_here ((a, opt) # r) s =
     ((case s of [] \<Rightarrow> False | c # cs \<Rightarrow> atom_ok a c \<and> match_here r cs)
      \<or> (opt \<and> match_here r s))"

fun match_anywhere :: "regex \<Rightarrow> string \<Rightarrow> bool" where
  "match_anywhere r [] = match_here r []"
| "match_anywhere r (c # cs) = (match_here r (c # cs) \<or> match_anywhere r cs)"

datatype error = ReError | ClassifierError

definition re_search :: "string \<Rightarrow> string \<Rightarrow> error + bool" where
  \<comment> \<open>\<^verbatim>\<open>re.search(pattern, s)\<close> read as a truth value; \<^verbatim>\<open>re.error\<close> on a
     pattern that does not compile\<close>
  "re_search p s =
     (case re_compile p of None \<Rightarrow> Inl ReError | Some r \<Rightarrow> Inr (match_anywhere r s))"

definition is_terminal :: "char \<Rightarrow> bool" where
  "is_terminal c \<longleftrightarrow> c \<in> set ''.!?''"

fun re_split_from :: "bool \<Rightarrow> string \<Rightarrow> string \<Rightarrow> string list" where
  \<comment> \<open>\<^verbatim>\<open>re.split(r'[.!?]+', text)\<close>: the flag says that the scan is inside a run of
     delimiters, the second argument is the piece read so far, reversed\<close>
  "re_split_from d cur [] = [rev cur]"
| "re_split_from d cur (c # cs) =
     (if is_terminal c then
        (if d then re_split_from True [] cs else rev cur # re_split_from True [] cs)
      else re_split_from False (c # cur) cs)"

definition re_split :: "string \<Rightarrow> string list" where
  "re_split text = re_split_from False [] text"


section \<open>The detector\<close>

type_synonym classifier = "string \<Rightarrow> error + (string \<times> rat) list"
  \<comment> \<open>the text-classification pipeline: it raises, or answers a list of labels with
     their scores\<close>

record detector =
  ml_available :: bool
  classifier :: "classifier option"

record result =
  rtype :: string
  rconfidence :: rat
  rmethod :: string

record finding =
  ftype :: string
  sentence :: string
  confidence :: rat
  severity :: string
  detection_method :: string

definition defect_patterns :: "(string \<times> string list) list" where
  "defect_patterns =
    [(''Cracks'',
        [''crack[s]?'', ''fissure[s]?'', ''split[s]?'', ''fracture[s]?'',
         ''settlement[- ]crack'', ''hairline crack'', ''structural crack'']),
     (''Damp'',
        [''damp[ness]?'', ''moist[ure]?'', ''wet[ness]?'', ''humid[ity]?'',
         ''water damage'', ''condensation'', ''moisture buildup'']),
     (''Corrosion'',
        [''rust[ing]?'', ''corros[ion|ive]'', ''oxid[ation|ized]'',
         ''corroded'', ''deterioration'', ''metal damage'']),
     (''Mold'',
        [''mold'', ''mould'', ''fungus'', ''mildew'', ''fungal'',
         ''spores'', ''black spots'']),
     (''Structural'',
        [''structural'', ''foundation'', ''beam[s]?'', ''support'',
         ''deflection'', ''settlement'', ''load[- ]bearing'',
         ''structural stress'', ''structural damage'']),
     (''Electrical'',
        [''electrical'', ''wiring'', ''circuit'', ''outlet[s]?'',
         ''panel'', ''GFCI'', ''electrical fault'', ''electrical safety'',
         ''power'', ''voltage'', ''electrical hazard'']),
     (''Plumbing'',
        [''plumbing'', ''pipe[s]?'', ''leak[age]?'', ''drain[age]?'',
         ''water pressure'', ''joint connection'', ''blockage'',
         ''water system'', ''drainage system''])]"

definition split_into_sentences :: "string \<Rightarrow> string list" where
  "split_into_sentences text =
     map strip (filter (\<lambda>s. length (strip s) > 15) (re_split text))"

definition specificity_boosts :: "(string \<times> rat) list" where
  "specificity_boosts =
    [(''structural crack'', 2 / 10),
     (''water damage'', 2 / 10),
     (''electrical hazard'', 25 / 100),
     (''foundation'', 15 / 100),
     (''safety hazard'', 2 / 10)]"

fun boost_loop :: "(string \<times> rat) list \<Rightarrow> string \<Rightarrow> rat \<Rightarrow> error + rat" where
  \<comment> \<open>the loop over the boost table: the first phrase found adds its boost, then
     \<^verbatim>\<open>break\<close>\<close>
  "boost_loop [] s base = Inr base"
| "boost_loop ((sp, boost) # rest) s base =
     (case re_search sp s of
        Inl e \<Rightarrow> Inl e
      | Inr True \<Rightarrow> Inr (base + boost)
      | Inr False \<Rightarrow> boost_loop rest s base)"

definition calculate_rule_confidence :: "string \<Rightarrow> string \<Rightarrow> error + rat" where
  \<comment> \<open>the sum is exact here; in binary64 \<^verbatim>\<open>0.7 + 0.15\<close> is the double of 0.85,
     \<^verbatim>\<open>0.7 + 0.25\<close> exceeds the cap, and \<^verbatim>\<open>0.7 + 0.2\<close> is the double just below
     0.9, which the cap leaves as it is\<close>
  "calculate_rule_confidence pattern s =
     (case boost_loop specificity_boosts s (7 / 10) of
        Inl e \<Rightarrow> Inl e
      | Inr c \<Rightarrow> Inr (min (9 / 10) c))"

fun first_match :: "string list \<Rightarrow> string \<Rightarrow> error + string option" where
  \<comment> \<open>the inner loop over the patterns of one category: the first pattern that
     matches, if any\<close>
  "first_match [] s = Inr None"
| "first_match (p # ps) s =
     (case re_search p s of
        Inl e \<Rightarrow> Inl e
      | Inr True \<Rightarrow> Inr (Some p)
      | Inr False \<Rightarrow> first_match ps s)"

fun classify_loop :: "(string \<times> string list) list \<Rightarrow> string \<Rightarrow> error + result list" where
  \<comment> \<open>the outer loop of \<^verbatim>\<open>_rule_based_classify\<close> over the categories\<close>
  "classify_loop [] s = Inr []"
| "classify_loop ((defect_type, patterns) # rest) s =
     (case first_match patterns s of
        Inl e \<Rightarrow> Inl e
      | Inr None \<Rightarrow> classify_loop rest s
      | Inr (Some p) \<Rightarrow>
          (case calculate_rule_confidence p s of
             Inl e \<Rightarrow> Inl e
           | Inr c \<Rightarrow>
               (case classify_loop rest s of
                  Inl e \<Rightarrow> Inl e
                | Inr rs \<Rightarrow>
                    Inr (\<lparr>rtype = defect_type, rconfidence = c,
                          rmethod = ''rule_based''\<rparr> # rs))))"

definition rule_based_classify :: "string \<Rightarrow> error + result list" where
  "rule_based_classify s = classify_loop defect_patterns (lower s)"

fun primary_loop :: "(string \<times> string list) list \<Rightarrow> string \<Rightarrow> error + string option" where
  "primary_loop [] s = Inr None"
| "primary_loop ((defect_type, patterns) # rest) s =
     (case first_match patterns s of
        Inl e \<Rightarrow> Inl e
      | Inr None \<Rightarrow> primary_loop rest s
      | Inr (Some p) \<Rightarrow> Inr (Some defect_type))"

definition get_primary_defect_type :: "string \<Rightarrow> error + string option" where
  "get_primary_defect_type s = primary_loop defect_patterns (lower s)"

definition ml_classify_sentence :: "detector \<Rightarrow> string \<Rightarrow> result option" where
  \<comment> \<open>everything raised inside the \<^verbatim>\<open>try\<close> block, also the \<^verbatim>\<open>IndexError\<close> of
     \<^verbatim>\<open>result[0]\<close> on an empty answer, ends in \<^verbatim>\<open>return None\<close>\<close>
  "ml_classify_sentence d s =
     (case classifier d of
        None \<Rightarrow> None
      | Some f \<Rightarrow>
          (case f s of
             Inl e \<Rightarrow> None
           | Inr [] \<Rightarrow> None
           | Inr ((label, score) # _) \<Rightarrow>
               if label = ''NEGATIVE'' then
                 (case get_primary_defect_type s of
                    Inl e \<Rightarrow> None
                  | Inr None \<Rightarrow> None
                  | Inr (Some rule_type) \<Rightarrow>
                      if rule_type \<noteq> [] then
                        Some \<lparr>rtype = rule_type,
                              rconfidence = min (95 / 100) (score * (12 / 10)),
                              rmethod = ''ml_enhanced''\<rparr>
                      else None)
               else None))"

definition high_severity_keywords :: "string list" where
  "high_severity_keywords =
    [''immediate'', ''urgent'', ''critical'', ''dangerous'', ''hazard'',
     ''safety'', ''structural damage'', ''major'', ''severe'']"

definition medium_severity_keywords :: "string list" where
  "medium_severity_keywords =
    [''significant'', ''moderate'', ''attention'', ''monitor'',
     ''repair'', ''maintenance'']"

primrec any_keyword :: "string list \<Rightarrow> string \<Rightarrow> bool" where
  \<comment> \<open>a loop over keywords that returns at the first one found\<close>
  "any_keyword [] s = False"
| "any_keyword (k # ks) s = (if contains k s then True else any_keyword ks s)"

definition determine_severity :: "string \<Rightarrow> string" where
  "determine_severity s =
     (let sentence_lower = lower s
      in if any_keyword high_severity_keywords sentence_lower then ''High''
         else if any_keyword medium_severity_keywords sentence_lower then ''Medium''
         else ''Low'')"

definition hybrid_finding :: "result \<Rightarrow> result \<Rightarrow> string \<Rightarrow> finding" where
  "hybrid_finding ml r s =
     \<lparr>ftype = rtype r, sentence = s,
      confidence = min (95 / 100) ((rconfidence ml + rconfidence r) / 2 + 1 / 10),
      severity = determine_severity s, detection_method = ''hybrid_ml_rule''\<rparr>"

definition rule_finding :: "result \<Rightarrow> string \<Rightarrow> finding" where
  "rule_finding r s =
     \<lparr>ftype = rtype r, sentence = s, confidence = rconfidence r,
      severity = determine_severity s, detection_method = ''rule_based''\<rparr>"

definition ml_finding :: "result \<Rightarrow> string \<Rightarrow> finding" where
  "ml_finding ml s =
     \<lparr>ftype = rtype ml, sentence = s, confidence = rconfidence ml,
      severity = determine_severity s, detection_method = ''ml_only''\<rparr>"

definition combine_results :: "result option \<Rightarrow> result list \<Rightarrow> string \<Rightarrow> finding list" where
  "combine_results ml_results rule_results s =
     (case ml_results of
        Some ml \<Rightarrow>
          (if rule_results \<noteq> [] then
             map (\<lambda>r. if rtype r = rtype ml then hybrid_finding ml r s
                       else rule_finding r s) rule_results
           else [ml_finding ml s])
      | None \<Rightarrow>
          (if rule_results \<noteq> [] then map (\<lambda>r. rule_finding r s) rule_results
           else []))"

fun detect_loop :: "detector \<Rightarrow> string list \<Rightarrow> error + finding list" where
  \<comment> \<open>the loop of \<^verbatim>\<open>detect_defects\<close> over the sentences\<close>
  "detect_loop d [] = Inr []"
| "detect_loop d (s # rest) =
     (if length (strip s) < 15 then detect_loop d rest
      else
        (let ml_results =
               (if ml_available d \<and> classifier d \<noteq> None then ml_classify_sentence d s
                else None)
         in case rule_based_classify s of
              Inl e \<Rightarrow> Inl e
            | Inr rule_results \<Rightarrow>
                (case detect_loop d rest of
                   Inl e \<Rightarrow> Inl e
                 | Inr defects \<Rightarrow>
                     Inr (combine_results ml_results rule_results s @ defects))))"

definition detect_defects :: "detector \<Rightarrow> string \<Rightarrow> error + finding list" where
  "detect_defects d text =
     (if text = [] \<or> length (strip text) < 20 then Inr []
      else detect_loop d (split_into_sentences text))"


section \<open>Auxiliary notions for the proofs\<close>

definition compiles :: "string \<Rightarrow> bool" where
  "compiles p \<longleftrightarrow> re_compile p \<noteq> None"

definition matches :: "string \<Rightarrow> string \<Rightarrow> bool" where
  "matches p s \<longleftrightarrow> re_search p s = Inr True"

definition rule_confidence :: "string \<Rightarrow> rat" where
  \<comment> \<open>what \<open>calculate_rule_confidence\<close> answers on a lower-cased unit\<close>
  "rule_confidence s =
     min (9 / 10)
       (case find (\<lambda>(sp, boost). matches sp s) specificity_boosts of
          None \<Rightarrow> 7 / 10
        | Some (sp, boost) \<Rightarrow> 7 / 10 + boost)"

definition category_match :: "string \<Rightarrow> string \<times> string list \<Rightarrow> result list" where
  \<comment> \<open>what one round of the outer loop of \<open>classify_loop\<close> appends\<close>
  "category_match s = (\<lambda>(defect_type, patterns).
     case find (\<lambda>p. matches p s) patterns of
       None \<Rightarrow> []
     | Some p \<Rightarrow> [\<lparr>rtype = defect_type, rconfidence = rule_confidence s,
                   rmethod = ''rule_based''\<rparr>])"

definition no_ml :: detector where
  \<comment> \<open>the detector built when the ML libraries are missing\<close>
  "no_ml = \<lparr>ml_available = False, classifier = None\<rparr>"

definition category_phrases :: "string \<Rightarrow> (string \<times> rat) list" where
  \<comment> \<open>Following the words of the specification: the high-specificity phrases that
     belong to a category, read as the phrases of the boost table that are patterns of
     that category\<close>
  "category_phrases t =
     filter (\<lambda>(sp, boost). case map_of defect_patterns t of
                               None \<Rightarrow> False
                             | Some ps \<Rightarrow> sp \<in> set ps)
       specificity_boosts"

definition claimed_rule_confidence :: "string \<Rightarrow> string \<Rightarrow> rat" where
  \<comment> \<open>Following the words of the specification: the base value, raised by the boost of
     a phrase of the match's own category only\<close>
  "claimed_rule_confidence t s =
     (case find (\<lambda>(sp, boost). contains sp s) (category_phrases t) of
        None \<Rightarrow> 7 / 10
      | Some (sp, boost) \<Rightarrow> min (9 / 10) (7 / 10 + boost))"

definition literal :: "string \<Rightarrow> regex" where
  \<comment> \<open>the expression of a pattern without special characters\<close>
  "literal k = map (\<lambda>c. (Lit c, False)) k"

definition scores_nonneg :: "detector \<Rightarrow> bool" where
  \<comment> \<open>what is assumed of the classifier, which is not part of the detector: the score
     it gives its first label, a probability, is never negative\<close>
  "scores_nonneg d \<longleftrightarrow>
     (\<forall>f s label score rest.
        classifier d = Some f \<and> f s = Inr ((label, score) # rest) \<longrightarrow> 0 \<le> score)"

fun lang :: "regex \<Rightarrow> string set" where
  \<comment> \<open>the words an expression of the fragment denotes\<close>
  "lang [] = {[]}"
| "lang ((a, opt) # r) =
     {c # w | c w. atom_ok a c \<and> w \<in> lang r} \<union> (if opt then lang r else {})"

fun well_cut :: "(string \<times> string) list \<Rightarrow> bool" where
  \<comment> \<open>Following the words of the specification: a text cut at runs of
     sentence-terminal punctuation is a first sentence followed by pairs of a
     delimiter and a sentence; a delimiter is a non-empty run of \<^verbatim>\<open>.\<close>, \<^verbatim>\<open>!\<close>,
     \<^verbatim>\<open>?\<close>, a sentence holds none of them, and only the last sentence may be
     empty (two runs with nothing between them are one run)\<close>
  "well_cut [] = True"
| "well_cut ((d, p) # rest) =
     (d \<noteq> [] \<and> list_all is_terminal d \<and> list_all (\<lambda>c. \<not> is_terminal c) p
      \<and> (p \<noteq> [] \<or> rest = []) \<and> well_cut rest)"

definition assemble :: "string \<Rightarrow> (string \<times> string) list \<Rightarrow> string" where
  \<comment> \<open>the text of a first sentence and the pairs of delimiter and sentence after it\<close>
  "assemble p0 dps = p0 @ concat (map (\<lambda>(d, p). d @ p) dps)"


section \<open>The matcher finds the words of the expression\<close>

lemma match_here_lang: "match_here r s \<longleftrightarrow> (\<exists>w post. s = w @ post \<and> w \<in> lang r)"
proof (induction r arbitrary: s)
  case Nil
  show ?case by simp
next
  case (Cons ao r)
  obtain a opt where ao: "ao = (a, opt)" by (cases ao)
  have step: "(case s of [] \<Rightarrow> False | c # cs \<Rightarrow> atom_ok a c \<and> match_here r cs)
      \<longleftrightarrow> (\<exists>c w post. s = (c # w) @ post \<and> atom_ok a c \<and> w \<in> lang r)"
    by (cases s) (auto simp: Cons.IH)
  have words: "(\<exists>w post. s = w @ post \<and> w \<in> lang ((a, opt) # r))
      \<longleftrightarrow> (\<exists>c w post. s = (c # w) @ post \<and> atom_ok a c \<and> w \<in> lang r)
          \<or> (opt \<and> (\<exists>w post. s = w @ post \<and> w \<in> lang r))"
    (is "?L \<longleftrightarrow> ?A \<or> ?B")
  proof
    assume ?L
    then obtain w post where w: "s = w @ post" "w \<in> lang ((a, opt) # r)"
      by blast
    from w(2) consider c w' where "w = c # w'" "atom_ok a c" "w' \<in> lang r"
      | "opt" "w \<in> lang r"
      by (auto split: if_splits)
    then show "?A \<or> ?B"
    proof cases
      case 1
      with w(1) show ?thesis by blast
    next
      case 2
      with w(1) show ?thesis by blast
    qed
  next
    assume "?A \<or> ?B"
    then show ?L
    proof
      assume ?A
      then obtain c w post where "s = (c # w) @ post" "atom_ok a c" "w \<in> lang r"
        by blast
      then have "s = (c # w) @ post" "c # w \<in> lang ((a, opt) # r)"
        by simp_all
      then show ?L by blast
    next
      assume ?B
      then obtain w post where "s = w @ post" "w \<in> lang r" and opt
        by blast
      then have "s = w @ post" "w \<in> lang ((a, opt) # r)"
        by simp_all
      then show ?L by blast
    qed
  qed
  show ?case
    unfolding ao words by (simp add: step Cons.IH)
qed

lemma match_anywhere_lang:
  "match_anywhere r s \<longleftrightarrow> (\<exists>pre w post. s = pre @ w @ post \<and> w \<in> lang r)"
proof (induction s)
  case Nil
  show ?case by (simp add: match_here_lang)
next
  case (Cons c cs)
  have "(\<exists>pre w post. c # cs = pre @ w @ post \<and> w \<in> lang r)
      \<longleftrightarrow> (\<exists>w post. c # cs = w @ post \<and> w \<in> lang r)
          \<or> (\<exists>pre w post. cs = pre @ w @ post \<and> w \<in> lang r)"
    (is "?L \<longleftrightarrow> ?A \<or> ?B")
  proof
    assume ?L
    then obtain pre w post where e: "c # cs = pre @ w @ post" "w \<in> lang r"
      by blast
    show "?A \<or> ?B"
    proof (cases pre)
      case Nil
      with e show ?thesis by auto
    next
      case (Cons x pre')
      with e have "cs = pre' @ w @ post" by simp
      with e(2) show ?thesis by blast
    qed
  next
    assume "?A \<or> ?B"
    then show ?L
    proof
      assume ?A
      then obtain w post where "c # cs = [] @ w @ post" "w \<in> lang r" by auto
      then show ?L by blast
    next
      assume ?B
      then obtain pre w post where "cs = pre @ w @ post" "w \<in> lang r" by blast
      then have "c # cs = (c # pre) @ w @ post" "w \<in> lang r" by simp_all
      then show ?L by blast
    qed
  qed
  then show ?case
    using Cons.IH by (simp add: match_here_lang)
qed


section \<open>The pattern tables compile, the loops return\<close>

lemma defect_patterns_compile:
  "list_all (\<lambda>(t, ps). list_all compiles ps) defect_patterns"
  by code_simp

lemma specificity_boosts_compile:
  "list_all (\<lambda>(sp, b). compiles sp) specificity_boosts"
  by code_simp

lemma re_search_total: "compiles p \<Longrightarrow> re_search p s = Inr (matches p s)"
  by (auto simp: compiles_def matches_def re_search_def split: option.splits)

lemma first_match_find:
  "list_all compiles ps \<Longrightarrow> first_match ps s = Inr (find (\<lambda>p. matches p s) ps)"
  by (induction ps) (simp_all add: re_search_total)

lemma boost_loop_find:
  "list_all (\<lambda>(sp, b). compiles sp) tbl \<Longrightarrow>
   boost_loop tbl s base =
     Inr (case find (\<lambda>(sp, b). matches sp s) tbl of
            None \<Rightarrow> base | Some (sp, b) \<Rightarrow> base + b)"
  by (induction tbl) (auto simp: re_search_total)

lemma calculate_rule_confidence_eq:
  "calculate_rule_confidence p s = Inr (rule_confidence s)"
  by (simp add: calculate_rule_confidence_def rule_confidence_def
      boost_loop_find [OF specificity_boosts_compile] split: option.splits)

lemma classify_loop_eq:
  "list_all (\<lambda>(t, ps). list_all compiles ps) tbl \<Longrightarrow>
   classify_loop tbl s = Inr (concat (map (category_match s) tbl))"
  by (induction tbl)
     (auto simp: first_match_find calculate_rule_confidence_eq category_match_def
           split: option.splits)

lemma rule_based_classify_eq:
  "rule_based_classify s = Inr (concat (map (category_match (lower s)) defect_patterns))"
  by (simp add: rule_based_classify_def classify_loop_eq [OF defect_patterns_compile])

lemma detect_loop_total: "\<exists>fs. detect_loop d ss = Inr fs"
proof (induction ss)
  case Nil
  show ?case by simp
next
  case (Cons s ss)
  then obtain fs where "detect_loop d ss = Inr fs" by blast
  then show ?case by (simp add: rule_based_classify_eq Let_def)
qed


section \<open>C1: detection never raises\<close>

text \<open>
  Claim C1. On every detector and every input string \<open>detect_defects\<close> returns a list of
  findings: no \<^verbatim>\<open>re.error\<close> of a pattern and no exception of the classifier
  reaches the caller. On an empty or whitespace-only input, and on an input whose
  segmentation yields no unit, the list is empty.
\<close>

theorem detect_defects_never_raises:
  "(\<exists>fs. detect_defects d text = Inr fs)
   \<and> (strip blank = [] \<longrightarrow> detect_defects d blank = Inr [])
   \<and> (split_into_sentences frag = [] \<longrightarrow> detect_defects d frag = Inr [])"
  by (simp add: detect_defects_def detect_loop_total)

theorem detect_defects_never_raises_witness:
  "strip [CHR 0x20, CHR 0x09, CHR 0x0A] = []
   \<and> detect_defects no_ml [CHR 0x20, CHR 0x09, CHR 0x0A] = Inr []
   \<and> split_into_sentences ''Page 4. Short one! Tiny bit? 123.'' = []
   \<and> detect_defects no_ml ''Page 4. Short one! Tiny bit? 123.'' = Inr []
   \<and> (\<exists>fs. detect_defects
          \<lparr>ml_available = True, classifier = Some (\<lambda>s. Inl ClassifierError)\<rparr>
          ''The pipe under the sink has a leak.'' = Inr fs)"
proof -
  have blank: "strip [CHR 0x20, CHR 0x09, CHR 0x0A] = []"
    by code_simp
  have frag: "split_into_sentences ''Page 4. Short one! Tiny bit? 123.'' = []"
    by code_simp
  from blank frag
    detect_defects_never_raises [of no_ml "[CHR 0x20, CHR 0x09, CHR 0x0A]"
      "[CHR 0x20, CHR 0x09, CHR 0x0A]" "''Page 4. Short one! Tiny bit? 123.''"]
    detect_defects_never_raises
      [of "\<lparr>ml_available = True, classifier = Some (\<lambda>s. Inl ClassifierError)\<rparr>"
        "''The pipe under the sink has a leak.''" "[]" "[]"]
  show ?thesis by blast
qed


section \<open>C10: the guard on the whole document\<close>

text \<open>
  Claim C10. An input whose trimmed length is below 20 characters yields no finding,
  whatever it holds: \<^verbatim>\<open>severe crack found\<close> has 18 characters, more than the 15 a
  unit needs, and the rules find a crack in it, yet the detector returns the empty
  list.
\<close>

theorem short_document_yields_nothing:
  "length (strip text) < 20 \<Longrightarrow> detect_defects d text = Inr []"
  by (simp add: detect_defects_def)

theorem short_document_yields_nothing_witness:
  "length (strip ''severe crack found'') = 18
   \<and> split_into_sentences ''severe crack found'' = [''severe crack found'']
   \<and> rule_based_classify ''severe crack found''
       = Inr [\<lparr>rtype = ''Cracks'', rconfidence = 7 / 10, rmethod = ''rule_based''\<rparr>]
   \<and> detect_defects no_ml ''severe crack found'' = Inr []"
proof -
  have len: "length (strip ''severe crack found'') = 18"
    by code_simp
  have units: "split_into_sentences ''severe crack found'' = [''severe crack found'']"
    by code_simp
  have rules: "rule_based_classify ''severe crack found''
       = Inr [\<lparr>rtype = ''Cracks'', rconfidence = 7 / 10, rmethod = ''rule_based''\<rparr>]"
    by code_simp
  from len have "length (strip ''severe crack found'') < 20"
    by simp
  from short_document_yields_nothing [OF this] len units rules
  show ?thesis by simp
qed


section \<open>C8: the segmenter\<close>

lemma strip_idem: "strip (strip s) = strip s"
proof -
  define t where "t = dropWhile is_space s"
  have st: "strip s = rev (dropWhile is_space (rev t))"
    by (simp add: strip_def t_def)
  show ?thesis
  proof (cases t)
    case Nil
    with st have "strip s = []" by simp
    moreover have "strip [] = []" by (simp add: strip_def)
    ultimately show ?thesis by simp
  next
    case (Cons x t')
    then have nx: "\<not> is_space x"
      using hd_dropWhile [of is_space s] by (simp add: t_def)
    have "strip s = x # rev (dropWhile is_space (rev t'))"
      using Cons nx by (simp add: st dropWhile_append3)
    moreover have "dropWhile is_space (rev (strip s)) = rev (strip s)"
      by (simp add: strip_def)
    ultimately show ?thesis
      using nx by (simp add: strip_def)
  qed
qed

lemma re_split_from_concat:
  "(d \<Longrightarrow> cur = []) \<Longrightarrow>
   concat (re_split_from d cur cs) = rev cur @ filter (\<lambda>c. \<not> is_terminal c) cs"
  by (induction d cur cs rule: re_split_from.induct) auto

lemma re_split_from_no_terminal:
  "\<forall>c\<in>set cur. \<not> is_terminal c \<Longrightarrow> p \<in> set (re_split_from d cur cs) \<Longrightarrow> c \<in> set p
   \<Longrightarrow> \<not> is_terminal c"
  by (induction d cur cs rule: re_split_from.induct) (auto split: if_splits)

lemma set_strip: "set (strip s) \<subseteq> set s"
  unfolding strip_def
  by (metis set_dropWhileD set_rev subsetI)


lemma re_split_from_sentence:
  "list_all (\<lambda>c. \<not> is_terminal c) p \<Longrightarrow>
   re_split_from False cur (p @ rest) = re_split_from False (rev p @ cur) rest"
  by (induction p arbitrary: cur) simp_all

lemma re_split_from_delimiter:
  "list_all is_terminal d \<Longrightarrow> re_split_from True [] (d @ rest) = re_split_from True [] rest"
  by (induction d) simp_all

lemma re_split_from_after_delimiter:
  "list_all (\<lambda>c. \<not> is_terminal c) p \<Longrightarrow> p \<noteq> [] \<or> rest = [] \<Longrightarrow>
   re_split_from True [] (p @ rest) = re_split_from False [] (p @ rest)"
  by (cases p) auto

lemma re_split_from_assemble:
  "list_all (\<lambda>c. \<not> is_terminal c) p0 \<Longrightarrow> well_cut dps \<Longrightarrow>
   re_split_from False cur (assemble p0 dps) = (rev cur @ p0) # map snd dps"
proof (induction dps arbitrary: cur p0)
  case Nil
  then show ?case
    using re_split_from_sentence [of p0 cur "[]"] by (simp add: assemble_def)
next
  case (Cons dp dps)
  obtain d p where dp: "dp = (d, p)" by (cases dp)
  from Cons.prems dp obtain c d' where d: "d = c # d'" "is_terminal c" "list_all is_terminal d'"
    by (cases d) auto
  from Cons.prems dp have p: "list_all (\<lambda>c. \<not> is_terminal c) p" "p \<noteq> [] \<or> dps = []"
    and rest: "well_cut dps"
    by simp_all
  let ?R = "concat (map (\<lambda>(d, p). d @ p) dps)"
  from p(2) have R: "p \<noteq> [] \<or> ?R = []" by auto
  have "re_split_from False cur (assemble p0 (dp # dps))
      = re_split_from False (rev p0 @ cur) (c # d' @ p @ ?R)"
    using re_split_from_sentence [OF Cons.prems(1), of cur "d @ p @ ?R"]
    by (simp add: assemble_def dp d)
  also have "\<dots> = (rev cur @ p0) # re_split_from True [] (d' @ p @ ?R)"
    using d(2) by simp
  also have "re_split_from True [] (d' @ p @ ?R) = re_split_from True [] (p @ ?R)"
    using d(3) by (rule re_split_from_delimiter)
  also have "\<dots> = re_split_from False [] (p @ ?R)"
    using p(1) R by (rule re_split_from_after_delimiter)
  also have "\<dots> = p # map snd dps"
    using Cons.IH [OF p(1) rest, of "[]"] by (simp add: assemble_def)
  finally show ?case
    by (simp add: dp)
qed

lemma re_split_assemble:
  "list_all (\<lambda>c. \<not> is_terminal c) p0 \<Longrightarrow> well_cut dps \<Longrightarrow>
   re_split (assemble p0 dps) = p0 # map snd dps"
  using re_split_from_assemble [of p0 dps "[]"] by (simp add: re_split_def)

lemma every_text_is_cut:
  "\<exists>p0 dps. t = assemble p0 dps \<and> list_all (\<lambda>c. \<not> is_terminal c) p0 \<and> well_cut dps"
proof (induction t)
  case Nil
  have "[] = assemble [] [] \<and> list_all (\<lambda>c. \<not> is_terminal c) [] \<and> well_cut []"
    by (simp add: assemble_def)
  then show ?case by blast
next
  case (Cons c t)
  then obtain p0 dps where t: "t = assemble p0 dps"
    and p0: "list_all (\<lambda>c. \<not> is_terminal c) p0" and dps: "well_cut dps"
    by blast
  show ?case
  proof (cases "is_terminal c")
    case False
    with t p0 dps
    have "c # t = assemble (c # p0) dps \<and> list_all (\<lambda>c. \<not> is_terminal c) (c # p0)
        \<and> well_cut dps"
      by (simp add: assemble_def)
    then show ?thesis by blast
  next
    case True
    show ?thesis
    proof (cases "p0 = [] \<and> dps \<noteq> []")
      case False
      with t p0 dps True
      have "c # t = assemble [] (([c], p0) # dps)
          \<and> list_all (\<lambda>c. \<not> is_terminal c) [] \<and> well_cut (([c], p0) # dps)"
        by (auto simp: assemble_def)
      then show ?thesis by blast
    next
      case merge: True
      then obtain d p rest where "dps = (d, p) # rest"
        by (cases dps) auto
      with t dps True merge
      have "c # t = assemble [] ((c # d, p) # rest)
          \<and> list_all (\<lambda>c. \<not> is_terminal c) [] \<and> well_cut ((c # d, p) # rest)"
        by (auto simp: assemble_def)
      then show ?thesis by blast
    qed
  qed
qed

text \<open>
  Claim C8. The segmenter cuts the text at the runs of \<^verbatim>\<open>.\<close>, \<^verbatim>\<open>!\<close> and \<^verbatim>\<open>?\<close>:
  every text is, in the sense of \<open>well_cut\<close>, a first sentence followed by pairs of a
  delimiter run and a sentence, and of a text so assembled \<open>re_split\<close> returns exactly
  the sentences, in order. The units are the trimmed sentences of more than 15
  characters, so a sentence whose trimmed length is below a threshold of 10 to 15
  characters is never kept; when every sentence of the text is that short, the
  segmenter yields no unit and the detector no finding.
\<close>

theorem segmenter_drops_short_units:
  "(list_all (\<lambda>c. \<not> is_terminal c) p0 \<and> well_cut dps \<longrightarrow>
      re_split (assemble p0 dps) = p0 # map snd dps
      \<and> split_into_sentences (assemble p0 dps)
          = map strip (filter (\<lambda>p. 15 < length (strip p)) (p0 # map snd dps))
      \<and> ((\<forall>p\<in>set (p0 # map snd dps). length (strip p) \<le> 15)
           \<longrightarrow> split_into_sentences (assemble p0 dps) = []
               \<and> detect_defects d (assemble p0 dps) = Inr []))
   \<and> (\<exists>q0 qps. t = assemble q0 qps \<and> list_all (\<lambda>c. \<not> is_terminal c) q0 \<and> well_cut qps)
   \<and> (\<forall>u\<in>set (split_into_sentences t).
         15 < length u \<and> strip u = u \<and> (\<forall>c\<in>set u. \<not> is_terminal c))"
proof (intro conjI impI ballI)
  assume a: "list_all (\<lambda>c. \<not> is_terminal c) p0 \<and> well_cut dps"
  then show pieces: "re_split (assemble p0 dps) = p0 # map snd dps"
    by (simp add: re_split_assemble)
  then show units: "split_into_sentences (assemble p0 dps)
      = map strip (filter (\<lambda>p. 15 < length (strip p)) (p0 # map snd dps))"
    by (simp only: split_into_sentences_def)
  assume short: "\<forall>p\<in>set (p0 # map snd dps). length (strip p) \<le> 15"
  then have "filter (\<lambda>p. 15 < length (strip p)) (p0 # map snd dps) = []"
    unfolding filter_empty_conv by (metis not_less)
  with units show none: "split_into_sentences (assemble p0 dps) = []"
    by simp
  then show "detect_defects d (assemble p0 dps) = Inr []"
    by (simp add: detect_defects_def)
next
  show "\<exists>q0 qps. t = assemble q0 qps \<and> list_all (\<lambda>c. \<not> is_terminal c) q0 \<and> well_cut qps"
    by (rule every_text_is_cut)
next
  fix u assume "u \<in> set (split_into_sentences t)"
  then obtain p where p: "p \<in> set (re_split t)" "15 < length (strip p)" "u = strip p"
    by (auto simp: split_into_sentences_def)
  then show "15 < length u" "strip u = u"
    by (simp_all add: strip_idem)
  fix c assume "c \<in> set u"
  with p have "c \<in> set p"
    using set_strip by auto
  moreover have "\<forall>c\<in>set []. \<not> is_terminal c"
    by simp
  ultimately show "\<not> is_terminal c"
    using p(1) unfolding re_split_def by (rule re_split_from_no_terminal [rotated 2])
qed

theorem segmenter_drops_short_units_witness:
  "assemble ''Page 4''
     [(''.'', '' Just 15 chars 5''), (''!'', '' Tiny bit''), (''?'', '' 123''), (''.'', [])]
     = ''Page 4. Just 15 chars 5! Tiny bit? 123.''
   \<and> re_split ''Page 4. Just 15 chars 5! Tiny bit? 123.''
     = [''Page 4'', '' Just 15 chars 5'', '' Tiny bit'', '' 123'', []]
   \<and> split_into_sentences ''Page 4. Just 15 chars 5! Tiny bit? 123.'' = []
   \<and> detect_defects no_ml ''Page 4. Just 15 chars 5! Tiny bit? 123.'' = Inr []
   \<and> assemble ''  The pipe under the sink has a leak'' [(''...'', ''  Page 4''), (''!'', '' '')]
     = ''  The pipe under the sink has a leak...  Page 4! ''
   \<and> re_split ''  The pipe under the sink has a leak...  Page 4! ''
     = [''  The pipe under the sink has a leak'', ''  Page 4'', '' '']
   \<and> split_into_sentences ''  The pipe under the sink has a leak...  Page 4! ''
     = [''The pipe under the sink has a leak'']"
proof -
  let ?p = "''Page 4''"
  let ?dps = "[(''.'', '' Just 15 chars 5''), (''!'', '' Tiny bit''), (''?'', '' 123''),
               (''.'', [])]"
  let ?q = "''  The pipe under the sink has a leak''"
  let ?qps = "[(''...'', ''  Page 4''), (''!'', '' '')]"
  have frag: "assemble ?p ?dps = ''Page 4. Just 15 chars 5! Tiny bit? 123.''"
    by code_simp
  have cut: "list_all (\<lambda>c. \<not> is_terminal c) ?p \<and> well_cut ?dps"
    by code_simp
  have short: "\<forall>p\<in>set (?p # map snd ?dps). length (strip p) \<le> 15"
    by code_simp
  have doc: "assemble ?q ?qps = ''  The pipe under the sink has a leak...  Page 4! ''"
    by code_simp
  have cut': "list_all (\<lambda>c. \<not> is_terminal c) ?q \<and> well_cut ?qps"
    by code_simp
  have kept: "map strip (filter (\<lambda>p. 15 < length (strip p)) (?q # map snd ?qps))
      = [''The pipe under the sink has a leak'']"
    by code_simp
  from segmenter_drops_short_units [of ?p ?dps no_ml] cut short
  have "re_split (assemble ?p ?dps) = ?p # map snd ?dps
      \<and> split_into_sentences (assemble ?p ?dps) = []
      \<and> detect_defects no_ml (assemble ?p ?dps) = Inr []"
    by blast
  then have one: "re_split ''Page 4. Just 15 chars 5! Tiny bit? 123.''
        = [''Page 4'', '' Just 15 chars 5'', '' Tiny bit'', '' 123'', []]
      \<and> split_into_sentences ''Page 4. Just 15 chars 5! Tiny bit? 123.'' = []
      \<and> detect_defects no_ml ''Page 4. Just 15 chars 5! Tiny bit? 123.'' = Inr []"
    unfolding frag by simp
  from segmenter_drops_short_units [of ?q ?qps] cut'
  have "re_split (assemble ?q ?qps) = ?q # map snd ?qps
      \<and> split_into_sentences (assemble ?q ?qps)
          = map strip (filter (\<lambda>p. 15 < length (strip p)) (?q # map snd ?qps))"
    by blast
  then have two: "re_split ''  The pipe under the sink has a leak...  Page 4! ''
        = [''  The pipe under the sink has a leak'', ''  Page 4'', '' '']
      \<and> split_into_sentences ''  The pipe under the sink has a leak...  Page 4! ''
        = [''The pipe under the sink has a leak'']"
    unfolding doc kept by simp
  from frag doc one two show ?thesis
    by (intro conjI) (elim conjE, assumption)+
qed


section \<open>C2: one match per category\<close>

lemma category_names_distinct: "distinct (map fst defect_patterns)"
  by (simp add: defect_patterns_def)

lemma find_SomeD: "find P xs = Some x \<Longrightarrow> x \<in> set xs \<and> P x"
  by (induction xs) (auto split: if_splits)

lemma rtype_category_match:
  "map rtype (category_match s tp) = (if \<exists>p\<in>set (snd tp). matches p s then [fst tp] else [])"
  by (cases tp) (auto simp: category_match_def find_None_iff split: option.splits dest: find_SomeD)

lemma rtype_concat_category_match:
  "map rtype (concat (map (category_match s) tbl))
     = map fst (filter (\<lambda>(t, ps). \<exists>p\<in>set ps. matches p s) tbl)"
  by (induction tbl) (auto simp: rtype_category_match)

lemma filter_other_category:
  "t \<notin> fst ` set tbl \<Longrightarrow>
   filter (\<lambda>r. rtype r = t) (concat (map (category_match s) tbl)) = []"
  by (induction tbl) (auto simp: category_match_def split: option.splits)

lemma filter_own_category:
  "filter (\<lambda>r. rtype r = t) (category_match s (t, ps)) = category_match s (t, ps)"
  by (auto simp: category_match_def split: option.splits)

lemma filter_foreign_category:
  "t' \<noteq> t \<Longrightarrow> filter (\<lambda>r. rtype r = t) (category_match s (t', ps)) = []"
  by (auto simp: category_match_def split: option.splits)

lemma filter_category:
  "distinct (map fst tbl) \<Longrightarrow> (t, ps) \<in> set tbl \<Longrightarrow>
   filter (\<lambda>r. rtype r = t) (concat (map (category_match s) tbl)) = category_match s (t, ps)"
proof (induction tbl)
  case Nil
  then show ?case by simp
next
  case (Cons a tbl)
  obtain t' ps' where a: "a = (t', ps')" by (cases a)
  show ?case
  proof (cases "t' = t")
    case True
    with Cons.prems a have "ps' = ps" and "t \<notin> fst ` set tbl"
      by (auto simp: image_iff)
    with True a show ?thesis
      by (simp add: filter_own_category filter_other_category)
  next
    case False
    with Cons a show ?thesis
      by (simp add: filter_foreign_category)
  qed
qed

lemma first_match_stops:
  "list_all (\<lambda>q. re_search q u = Inr False) qs \<Longrightarrow> re_search p u = Inr True \<Longrightarrow>
   first_match (qs @ p # rest) u = Inr (Some p)"
  by (induction qs) simp_all

text \<open>
  Claim C2. The rule-based classifier returns at most one raw match per category: the
  categories of its matches are pairwise distinct, they are the categories of the table
  with a matching pattern, in table order, and the matches of a category are the single
  match of the first pattern the inner loop finds, or none. The inner loop answers the
  first pattern that matches and tries no pattern after it, whatever follows in the
  list.
\<close>

theorem one_match_per_category:
  "(\<exists>rs. rule_based_classify s = Inr rs
      \<and> distinct (map rtype rs)
      \<and> map rtype rs
          = map fst (filter (\<lambda>(t, ps). \<exists>p\<in>set ps. matches p (lower s)) defect_patterns)
      \<and> (\<forall>(t, ps)\<in>set defect_patterns.
            filter (\<lambda>r. rtype r = t) rs =
              (case first_match ps (lower s) of
                 Inr (Some p) \<Rightarrow>
                   [\<lparr>rtype = t, rconfidence = rule_confidence (lower s),
                     rmethod = ''rule_based''\<rparr>]
               | _ \<Rightarrow> [])))
   \<and> (list_all (\<lambda>q. re_search q u = Inr False) qs \<and> re_search p u = Inr True
        \<longrightarrow> first_match (qs @ p # rest) u = Inr (Some p))"
proof (intro conjI exI impI)
  let ?rs = "concat (map (category_match (lower s)) defect_patterns)"
  show "rule_based_classify s = Inr ?rs"
    by (rule rule_based_classify_eq)
  show names: "map rtype ?rs
      = map fst (filter (\<lambda>(t, ps). \<exists>p\<in>set ps. matches p (lower s)) defect_patterns)"
    by (rule rtype_concat_category_match)
  show "distinct (map rtype ?rs)"
    unfolding names by (rule distinct_map_filter) (rule category_names_distinct)
  show "\<forall>(t, ps)\<in>set defect_patterns.
          filter (\<lambda>r. rtype r = t) ?rs =
            (case first_match ps (lower s) of
               Inr (Some p) \<Rightarrow>
                 [\<lparr>rtype = t, rconfidence = rule_confidence (lower s),
                   rmethod = ''rule_based''\<rparr>]
             | _ \<Rightarrow> [])"
  proof (intro ballI, clarify)
    fix t ps assume mem: "(t, ps) \<in> set defect_patterns"
    with defect_patterns_compile have "list_all compiles ps"
      by (auto simp: list_all_iff)
    then have "first_match ps (lower s) = Inr (find (\<lambda>p. matches p (lower s)) ps)"
      by (rule first_match_find)
    moreover have "filter (\<lambda>r. rtype r = t) ?rs = category_match (lower s) (t, ps)"
      using category_names_distinct mem by (rule filter_category)
    ultimately show "filter (\<lambda>r. rtype r = t) ?rs =
            (case first_match ps (lower s) of
               Inr (Some p) \<Rightarrow>
                 [\<lparr>rtype = t, rconfidence = rule_confidence (lower s),
                   rmethod = ''rule_based''\<rparr>]
             | _ \<Rightarrow> [])"
      by (simp add: category_match_def split: option.splits)
  qed
next
  assume "list_all (\<lambda>q. re_search q u = Inr False) qs \<and> re_search p u = Inr True"
  then show "first_match (qs @ p # rest) u = Inr (Some p)"
    by (simp add: first_match_stops)
qed

theorem one_match_per_category_witness:
  "rule_based_classify ''Cracks and fissures split the cracked beam; wet, damp, moist.''
     = Inr [\<lparr>rtype = ''Cracks'', rconfidence = 7 / 10, rmethod = ''rule_based''\<rparr>,
            \<lparr>rtype = ''Damp'', rconfidence = 7 / 10, rmethod = ''rule_based''\<rparr>,
            \<lparr>rtype = ''Structural'', rconfidence = 7 / 10, rmethod = ''rule_based''\<rparr>]
   \<and> first_match [''fissure[s]?'', ''crack[s]?'', ''split[s]?'', ''?''] ''a cracked and split wall''
     = Inr (Some ''crack[s]?'')"
proof -
  have rs: "rule_based_classify ''Cracks and fissures split the cracked beam; wet, damp, moist.''
     = Inr [\<lparr>rtype = ''Cracks'', rconfidence = 7 / 10, rmethod = ''rule_based''\<rparr>,
            \<lparr>rtype = ''Damp'', rconfidence = 7 / 10, rmethod = ''rule_based''\<rparr>,
            \<lparr>rtype = ''Structural'', rconfidence = 7 / 10, rmethod = ''rule_based''\<rparr>]"
    by code_simp
  have no: "list_all (\<lambda>q. re_search q ''a cracked and split wall'' = Inr False) [''fissure[s]?'']"
    by code_simp
  have yes: "re_search ''crack[s]?'' ''a cracked and split wall'' = Inr True"
    by code_simp
  from rs no yes
    one_match_per_category
      [of "''Cracks and fissures split the cracked beam; wet, damp, moist.''"
        "''a cracked and split wall''" "[''fissure[s]?'']" "''crack[s]?''"
        "[''split[s]?'', ''?'']"]
  show ?thesis by simp
qed


section \<open>C4: severity\<close>

lemma any_keyword_iff: "any_keyword ks s \<longleftrightarrow> (\<exists>k\<in>set ks. contains k s)"
  by (induction ks) auto

lemma contains_iff: "contains k s \<longleftrightarrow> (\<exists>pre post. s = pre @ k @ post)"
proof (induction s)
  case Nil
  show ?case by auto
next
  case (Cons c cs)
  have "starts_with (c # cs) k \<longleftrightarrow> (\<exists>post. c # cs = k @ post)"
    unfolding starts_with_def
    by (metis append_eq_conv_conj append_take_drop_id)
  moreover have "(\<exists>pre post. c # cs = pre @ k @ post)
      \<longleftrightarrow> (\<exists>post. c # cs = k @ post) \<or> (\<exists>pre post. cs = pre @ k @ post)"
    (is "?L \<longleftrightarrow> ?A \<or> ?B")
  proof
    assume ?L
    then obtain pre post where e: "c # cs = pre @ k @ post" by blast
    show "?A \<or> ?B"
    proof (cases pre)
      case Nil
      with e show ?thesis by auto
    next
      case (Cons x pre')
      with e have "cs = pre' @ k @ post" by simp
      then show ?thesis by blast
    qed
  next
    assume "?A \<or> ?B"
    then show ?L
    proof
      assume ?A
      then obtain post where "c # cs = [] @ k @ post" by auto
      then show ?L by blast
    next
      assume ?B
      then obtain pre post where "cs = pre @ k @ post" by blast
      then have "c # cs = (c # pre) @ k @ post" by simp
      then show ?L by blast
    qed
  qed
  ultimately show ?case
    using Cons.IH by simp
qed

text \<open>
  Claim C4. Severity is read from the lower-cased unit, so it does not depend on case:
  High when a high-severity keyword occurs in it, otherwise Medium when a
  medium-severity keyword occurs, otherwise Low. A unit with a keyword of both lists is
  High. The lists are those of \<open>determine_severity\<close>: \<open>high_severity_keywords\<close> and
  \<open>medium_severity_keywords\<close>.
\<close>

theorem severity_priority:
  "determine_severity s =
     (if \<exists>k\<in>set high_severity_keywords. contains k (lower s) then ''High''
      else if \<exists>k\<in>set medium_severity_keywords. contains k (lower s) then ''Medium''
      else ''Low'')
   \<and> (lower s = lower s' \<longrightarrow> determine_severity s = determine_severity s')
   \<and> (h \<in> set high_severity_keywords \<and> contains h (lower u)
        \<and> m \<in> set medium_severity_keywords \<and> contains m (lower u)
        \<longrightarrow> determine_severity u = ''High'')"
  by (auto simp: determine_severity_def Let_def any_keyword_iff)

theorem severity_priority_witness:
  "lower ''Moderate wear only'' = lower ''MODERATE WEAR ONLY''
   \<and> determine_severity ''Moderate wear only'' = ''Medium''
   \<and> determine_severity ''MODERATE WEAR ONLY'' = ''Medium''
   \<and> determine_severity ''SEVERE leak, Significant stain'' = ''High''
   \<and> determine_severity ''Significant stain, SEVERE leak'' = ''High''
   \<and> determine_severity ''A pipe under the sink'' = ''Low''"
proof -
  have eq: "lower ''Moderate wear only'' = lower ''MODERATE WEAR ONLY''"
    by code_simp
  have h: "''severe'' \<in> set high_severity_keywords
      \<and> contains ''severe'' (lower ''SEVERE leak, Significant stain'')
      \<and> ''significant'' \<in> set medium_severity_keywords
      \<and> contains ''significant'' (lower ''SEVERE leak, Significant stain'')"
    by code_simp
  have others: "determine_severity ''Moderate wear only'' = ''Medium''
      \<and> determine_severity ''Significant stain, SEVERE leak'' = ''High''
      \<and> determine_severity ''A pipe under the sink'' = ''Low''"
    by code_simp
  note inst = severity_priority [of "''Moderate wear only''" "''MODERATE WEAR ONLY''"
      "''severe''" "''SEVERE leak, Significant stain''" "''significant''"]
  from inst eq
  have same: "determine_severity ''Moderate wear only'' = determine_severity ''MODERATE WEAR ONLY''"
    by blast
  from inst h have high: "determine_severity ''SEVERE leak, Significant stain'' = ''High''"
    by blast
  from others same have "determine_severity ''MODERATE WEAR ONLY'' = ''Medium''"
    by (elim conjE) (erule subst)
  with eq others high show ?thesis
    by (intro conjI) (elim conjE, assumption)+
qed


section \<open>C5: the confidence of a rule-based match\<close>

lemma match_here_literal: "match_here (literal k) s = starts_with s k"
proof (induction k arbitrary: s)
  case Nil
  show ?case by (simp add: literal_def starts_with_def)
next
  case (Cons a k)
  then have "match_here (literal k) cs = starts_with cs k" for cs
    by simp
  then show ?case
    by (cases s) (auto simp: literal_def starts_with_def)
qed

lemma match_anywhere_literal: "match_anywhere (literal k) s = contains k s"
proof (induction s)
  case Nil
  show ?case by (cases k) (simp_all add: literal_def)
next
  case (Cons c cs)
  then show ?case by (simp add: match_here_literal)
qed

lemma specificity_boosts_literal:
  "list_all (\<lambda>(sp, boost). re_compile sp = Some (literal sp)) specificity_boosts"
  by code_simp

lemma matches_phrase:
  "(sp, boost) \<in> set specificity_boosts \<Longrightarrow> matches sp s = contains sp s"
  using specificity_boosts_literal
  by (auto simp: list_all_iff matches_def re_search_def match_anywhere_literal)

lemma rule_confidence_contains:
  "rule_confidence s =
     (case find (\<lambda>(sp, boost). contains sp s) specificity_boosts of
        None \<Rightarrow> 7 / 10
      | Some (sp, boost) \<Rightarrow> min (9 / 10) (7 / 10 + boost))"
proof -
  have "find (\<lambda>(sp, boost). matches sp s) specificity_boosts
      = find (\<lambda>(sp, boost). contains sp s) specificity_boosts"
    by (rule find_cong) (auto simp: matches_phrase)
  then show ?thesis
    by (simp add: rule_confidence_def split: option.splits)
qed

lemma rule_confidence_bounds: "7 / 10 \<le> rule_confidence s \<and> rule_confidence s \<le> 9 / 10"
  by (simp add: rule_confidence_contains specificity_boosts_def)

lemma rule_confidence_boosted:
  "7 / 10 < rule_confidence s \<longleftrightarrow> (\<exists>(sp, boost)\<in>set specificity_boosts. contains sp s)"
  by (simp add: rule_confidence_contains specificity_boosts_def)

lemma rconfidence_category_match:
  "r \<in> set (concat (map (category_match s) tbl)) \<Longrightarrow> rconfidence r = rule_confidence s"
  by (auto simp: category_match_def split: option.splits)

text \<open>
  Claim C5, as stated, fails. In the unit below the only phrase of the boost table is
  \<^verbatim>\<open>foundation\<close>, a pattern of the category Structural; the only phrase of the table
  among the patterns of Cracks is \<^verbatim>\<open>structural crack\<close>, which the unit does not hold.
  The match of category Cracks is raised to 0.85 all the same.
\<close>

theorem same_category_boost_counterexample:
  "rule_based_classify ''The foundation shows visible cracks along the east wall''
     = Inr [\<lparr>rtype = ''Cracks'', rconfidence = 17 / 20, rmethod = ''rule_based''\<rparr>,
            \<lparr>rtype = ''Structural'', rconfidence = 17 / 20, rmethod = ''rule_based''\<rparr>]
   \<and> category_phrases ''Cracks'' = [(''structural crack'', 2 / 10)]
   \<and> claimed_rule_confidence ''Cracks''
        (lower ''The foundation shows visible cracks along the east wall'') = 7 / 10"
  by code_simp

text \<open>
  Claim C5, amended. The confidence of every rule-based raw match is the base value 0.7
  plus the boost of the first phrase of the boost table that occurs in the lower-cased
  unit, capped at 0.9, whatever the category of the match: all matches of a unit have
  the same confidence, and it exceeds 0.7 exactly when some phrase of the table occurs
  in the unit.
\<close>

theorem rule_confidence_any_category:
  "rule_based_classify s = Inr rs \<and> r \<in> set rs \<longrightarrow>
     rconfidence r =
       (case find (\<lambda>(sp, boost). contains sp (lower s)) specificity_boosts of
          None \<Rightarrow> 7 / 10
        | Some (sp, boost) \<Rightarrow> min (9 / 10) (7 / 10 + boost))
     \<and> rconfidence r \<le> 9 / 10
     \<and> (7 / 10 < rconfidence r
          \<longleftrightarrow> (\<exists>(sp, boost)\<in>set specificity_boosts. contains sp (lower s)))
     \<and> (\<forall>r'\<in>set rs. rconfidence r' = rconfidence r)"
proof (intro impI)
  assume a: "rule_based_classify s = Inr rs \<and> r \<in> set rs"
  then have all: "\<forall>r'\<in>set rs. rconfidence r' = rule_confidence (lower s)"
    by (auto simp: rule_based_classify_eq rconfidence_category_match)
  with a have r: "rconfidence r = rule_confidence (lower s)"
    by blast
  from all r have same: "\<forall>r'\<in>set rs. rconfidence r' = rconfidence r"
    by simp
  from r have "rconfidence r =
       (case find (\<lambda>(sp, boost). contains sp (lower s)) specificity_boosts of
          None \<Rightarrow> 7 / 10
        | Some (sp, boost) \<Rightarrow> min (9 / 10) (7 / 10 + boost))
     \<and> rconfidence r \<le> 9 / 10
     \<and> (7 / 10 < rconfidence r
          \<longleftrightarrow> (\<exists>(sp, boost)\<in>set specificity_boosts. contains sp (lower s)))"
    using rule_confidence_contains [of "lower s"] rule_confidence_bounds [of "lower s"]
      rule_confidence_boosted [of "lower s"]
    by simp
  with same show "rconfidence r =
       (case find (\<lambda>(sp, boost). contains sp (lower s)) specificity_boosts of
          None \<Rightarrow> 7 / 10
        | Some (sp, boost) \<Rightarrow> min (9 / 10) (7 / 10 + boost))
     \<and> rconfidence r \<le> 9 / 10
     \<and> (7 / 10 < rconfidence r
          \<longleftrightarrow> (\<exists>(sp, boost)\<in>set specificity_boosts. contains sp (lower s)))
     \<and> (\<forall>r'\<in>set rs. rconfidence r' = rconfidence r)"
    by blast
qed

theorem rule_confidence_any_category_witness:
  "rule_based_classify ''Rust near the electrical hazard sign''
     = Inr [\<lparr>rtype = ''Corrosion'', rconfidence = 9 / 10, rmethod = ''rule_based''\<rparr>,
            \<lparr>rtype = ''Electrical'', rconfidence = 9 / 10, rmethod = ''rule_based''\<rparr>]
   \<and> find (\<lambda>(sp, boost). contains sp (lower ''Rust near the electrical hazard sign''))
         specificity_boosts = Some (''electrical hazard'', 25 / 100)
   \<and> (\<exists>(sp, boost)\<in>set specificity_boosts.
         contains sp (lower ''Rust near the electrical hazard sign''))"
proof -
  let ?r = "\<lparr>rtype = ''Corrosion'', rconfidence = 9 / 10, rmethod = ''rule_based''\<rparr>"
  let ?rs = "[?r, \<lparr>rtype = ''Electrical'', rconfidence = 9 / 10, rmethod = ''rule_based''\<rparr>]"
  have rs: "rule_based_classify ''Rust near the electrical hazard sign'' = Inr ?rs"
    by code_simp
  have phrase: "find (\<lambda>(sp, boost). contains sp (lower ''Rust near the electrical hazard sign''))
         specificity_boosts = Some (''electrical hazard'', 25 / 100)"
    by code_simp
  have "?r \<in> set ?rs"
    by simp
  with rs
    rule_confidence_any_category [of "''Rust near the electrical hazard sign''" ?rs ?r]
  have "(7 / 10 :: rat) < rconfidence ?r
      \<longleftrightarrow> (\<exists>(sp, boost)\<in>set specificity_boosts.
            contains sp (lower ''Rust near the electrical hazard sign''))"
    by blast
  then have "\<exists>(sp, boost)\<in>set specificity_boosts.
      contains sp (lower ''Rust near the electrical hazard sign'')"
    by simp
  with rs phrase show ?thesis
    by (intro conjI)
qed


section \<open>C9: the scenario of the cracked foundation\<close>

text \<open>
  Claim C9, as stated, fails: without the secondary signal the detector returns two
  findings for the sentence, since \<^verbatim>\<open>foundation\<close> is a pattern of the category
  Structural.
\<close>

theorem foundation_scenario_counterexample:
  "map_sum id (map ftype)
     (detect_defects no_ml ''The foundation shows visible cracks along the east wall.'')
     = Inr [''Cracks'', ''Structural'']"
  by code_simp

text \<open>
  Claim C9, amended. For that input, with the secondary signal disabled, the detector
  returns exactly two findings, of category Cracks and of category Structural in this
  order, each with severity Low, detection method \<^verbatim>\<open>rule_based\<close> and confidence
  0.85.
\<close>

theorem foundation_scenario_two_findings:
  "detect_defects no_ml ''The foundation shows visible cracks along the east wall.''
     = Inr [\<lparr>ftype = ''Cracks'',
             sentence = ''The foundation shows visible cracks along the east wall'',
             confidence = 85 / 100, severity = ''Low'',
             detection_method = ''rule_based''\<rparr>,
            \<lparr>ftype = ''Structural'',
             sentence = ''The foundation shows visible cracks along the east wall'',
             confidence = 85 / 100, severity = ''Low'',
             detection_method = ''rule_based''\<rparr>]"
  by code_simp


section \<open>C6 and C7: merging with the secondary signal\<close>



lemma combine_results_agree:
  assumes "r \<in> set rs" and "rtype r = rtype ml" and "distinct (map rtype rs)"
  shows "filter (\<lambda>f. ftype f = rtype ml) (combine_results (Some ml) rs s)
           = [hybrid_finding ml r s]"
proof -
  from assms(1) have ne: "rs \<noteq> []" by auto
  have "filter (\<lambda>f. ftype f = rtype ml)
          (map (\<lambda>r. if rtype r = rtype ml then hybrid_finding ml r s else rule_finding r s) rs)
        = map (\<lambda>r. hybrid_finding ml r s) (filter (\<lambda>r. rtype r = rtype ml) rs)"
    by (induction rs) (auto simp: hybrid_finding_def rule_finding_def)
  moreover from assms have "filter (\<lambda>r. rtype r = rtype ml) rs = [r]"
  proof (induction rs)
    case Nil
    then show ?case by simp
  next
    case (Cons a rs)
    show ?case
    proof (cases "a = r")
      case True
      with Cons.prems have "\<forall>x\<in>set rs. rtype x \<noteq> rtype ml"
        by (auto simp: image_iff)
      then have "filter (\<lambda>r. rtype r = rtype ml) rs = []"
        by (simp add: filter_empty_conv)
      with True Cons.prems show ?thesis by simp
    next
      case False
      with Cons.prems have "r \<in> set rs" and "rtype a \<noteq> rtype ml"
        by (auto simp: image_iff)
      with Cons show ?thesis by simp
    qed
  qed
  ultimately show ?thesis
    using ne by (simp add: combine_results_def)
qed

text \<open>
  Claim C6. When the category of the secondary signal is the category of a rule-based
  match, the merger emits one finding for that category: detection method
  \<^verbatim>\<open>hybrid_ml_rule\<close>, confidence the mean of the two confidences plus 0.1, capped at
  0.95; the merger emits as many findings as there are rule-based matches, none for the
  signal alone. A signal of 0.8 and a match of 0.7 for Damp merge into one finding of
  confidence 0.85.
\<close>

theorem agreement_gives_hybrid_finding:
  "(r \<in> set rs \<and> rtype r = rtype ml \<and> distinct (map rtype rs) \<longrightarrow>
      filter (\<lambda>f. ftype f = rtype ml) (combine_results (Some ml) rs s)
        = [\<lparr>ftype = rtype ml, sentence = s,
            confidence = min (95 / 100) ((rconfidence ml + rconfidence r) / 2 + 1 / 10),
            severity = determine_severity s, detection_method = ''hybrid_ml_rule''\<rparr>]
      \<and> length (combine_results (Some ml) rs s) = length rs)
   \<and> combine_results
        (Some \<lparr>rtype = ''Damp'', rconfidence = 8 / 10, rmethod = ''ml_enhanced''\<rparr>)
        [\<lparr>rtype = ''Damp'', rconfidence = 7 / 10, rmethod = ''rule_based''\<rparr>] u
      = [\<lparr>ftype = ''Damp'', sentence = u, confidence = 85 / 100,
          severity = determine_severity u, detection_method = ''hybrid_ml_rule''\<rparr>]"
proof (intro conjI impI)
  assume a: "r \<in> set rs \<and> rtype r = rtype ml \<and> distinct (map rtype rs)"
  then have "filter (\<lambda>f. ftype f = rtype ml) (combine_results (Some ml) rs s)
      = [hybrid_finding ml r s]"
    by (simp add: combine_results_agree)
  then show "filter (\<lambda>f. ftype f = rtype ml) (combine_results (Some ml) rs s)
        = [\<lparr>ftype = rtype ml, sentence = s,
            confidence = min (95 / 100) ((rconfidence ml + rconfidence r) / 2 + 1 / 10),
            severity = determine_severity s, detection_method = ''hybrid_ml_rule''\<rparr>]"
    using a by (simp add: hybrid_finding_def)
  from a have "rs \<noteq> []" by auto
  then show "length (combine_results (Some ml) rs s) = length rs"
    by (simp add: combine_results_def)
next
  show "combine_results
        (Some \<lparr>rtype = ''Damp'', rconfidence = 8 / 10, rmethod = ''ml_enhanced''\<rparr>)
        [\<lparr>rtype = ''Damp'', rconfidence = 7 / 10, rmethod = ''rule_based''\<rparr>] u
      = [\<lparr>ftype = ''Damp'', sentence = u, confidence = 85 / 100,
          severity = determine_severity u, detection_method = ''hybrid_ml_rule''\<rparr>]"
    by (simp add: combine_results_def hybrid_finding_def)
qed


theorem agreement_gives_hybrid_finding_witness:
  "detect_defects
     \<lparr>ml_available = True, classifier = Some (\<lambda>s. Inr [(''NEGATIVE'', 2 / 3)])\<rparr>
     ''The basement wall is slightly damp today.''
     = Inr [\<lparr>ftype = ''Damp'', sentence = ''The basement wall is slightly damp today'',
             confidence = 85 / 100, severity = ''Low'',
             detection_method = ''hybrid_ml_rule''\<rparr>]
   \<and> filter (\<lambda>f. ftype f = ''Cracks'')
        (combine_results
          (Some \<lparr>rtype = ''Cracks'', rconfidence = 95 / 100, rmethod = ''ml_enhanced''\<rparr>)
          [\<lparr>rtype = ''Cracks'', rconfidence = 85 / 100, rmethod = ''rule_based''\<rparr>,
           \<lparr>rtype = ''Structural'', rconfidence = 85 / 100, rmethod = ''rule_based''\<rparr>]
          ''The foundation shows visible cracks'')
     = [\<lparr>ftype = ''Cracks'', sentence = ''The foundation shows visible cracks'',
         confidence = 95 / 100,
         severity = determine_severity ''The foundation shows visible cracks'',
         detection_method = ''hybrid_ml_rule''\<rparr>]"
proof -
  let ?ml = "\<lparr>rtype = ''Cracks'', rconfidence = 95 / 100, rmethod = ''ml_enhanced''\<rparr>"
  let ?r = "\<lparr>rtype = ''Cracks'', rconfidence = 85 / 100, rmethod = ''rule_based''\<rparr>"
  let ?rs = "[?r, \<lparr>rtype = ''Structural'', rconfidence = 85 / 100, rmethod = ''rule_based''\<rparr>]"
  have pipeline: "detect_defects
     \<lparr>ml_available = True, classifier = Some (\<lambda>s. Inr [(''NEGATIVE'', 2 / 3)])\<rparr>
     ''The basement wall is slightly damp today.''
     = Inr [\<lparr>ftype = ''Damp'', sentence = ''The basement wall is slightly damp today'',
             confidence = 85 / 100, severity = ''Low'',
             detection_method = ''hybrid_ml_rule''\<rparr>]"
    by code_simp
  have hyp: "?r \<in> set ?rs \<and> rtype ?r = rtype ?ml \<and> distinct (map rtype ?rs)"
    by simp
  from agreement_gives_hybrid_finding [of ?r ?rs ?ml "''The foundation shows visible cracks''"]
    hyp
  have "filter (\<lambda>f. ftype f = rtype ?ml)
          (combine_results (Some ?ml) ?rs ''The foundation shows visible cracks'')
        = [\<lparr>ftype = rtype ?ml, sentence = ''The foundation shows visible cracks'',
            confidence = min (95 / 100) ((rconfidence ?ml + rconfidence ?r) / 2 + 1 / 10),
            severity = determine_severity ''The foundation shows visible cracks'',
            detection_method = ''hybrid_ml_rule''\<rparr>]"
    by blast
  then have "filter (\<lambda>f. ftype f = ''Cracks'')
          (combine_results (Some ?ml) ?rs ''The foundation shows visible cracks'')
        = [\<lparr>ftype = ''Cracks'', sentence = ''The foundation shows visible cracks'',
            confidence = 95 / 100,
            severity = determine_severity ''The foundation shows visible cracks'',
            detection_method = ''hybrid_ml_rule''\<rparr>]"
    by simp
  with pipeline show ?thesis
    by (intro conjI)
qed









section \<open>C3: the bounds of the confidence\<close>

lemma rule_based_classify_bounds:
  assumes "rule_based_classify s = Inr rs" and "r \<in> set rs"
  shows "0 \<le> rconfidence r \<and> rconfidence r \<le> 9 / 10"
proof -
  from assms have "rconfidence r = rule_confidence (lower s)"
    by (auto simp: rule_based_classify_eq rconfidence_category_match)
  with rule_confidence_bounds [of "lower s"] show ?thesis
    by simp
qed

lemma ml_classify_sentence_bounds:
  assumes "scores_nonneg d" and "ml_classify_sentence d s = Some m"
  shows "0 \<le> rconfidence m \<and> rconfidence m \<le> 95 / 100"
proof -
  from assms(2) obtain f label score rest where
    f: "classifier d = Some f" "f s = Inr ((label, score) # rest)"
    and m: "rconfidence m = min (95 / 100) (score * (12 / 10))"
    by (auto simp: ml_classify_sentence_def
        split: option.splits sum.splits list.splits if_splits)
  from assms(1) f have "0 \<le> score"
    unfolding scores_nonneg_def by blast
  with m show ?thesis
    by simp
qed

lemma combine_results_bounds:
  assumes ml: "\<forall>m. ml = Some m \<longrightarrow> 0 \<le> rconfidence m \<and> rconfidence m \<le> 95 / 100"
    and rs: "\<forall>r\<in>set rs. 0 \<le> rconfidence r \<and> rconfidence r \<le> 9 / 10"
    and g: "g \<in> set (combine_results ml rs s)"
  shows "0 \<le> confidence g \<and> confidence g \<le> 95 / 100"
proof (cases ml)
  case None
  with g obtain r where "r \<in> set rs" "g = rule_finding r s"
    by (auto simp: combine_results_def split: if_splits)
  with rs show ?thesis
    by (auto simp: rule_finding_def)
next
  case (Some m)
  with ml have m: "0 \<le> rconfidence m" "rconfidence m \<le> 95 / 100"
    by simp_all
  from g Some consider "g = ml_finding m s"
    | r where "r \<in> set rs" "g = hybrid_finding m r s"
    | r where "r \<in> set rs" "g = rule_finding r s"
    by (auto simp: combine_results_def split: if_splits)
  then show ?thesis
  proof cases
    case 1
    with m show ?thesis by (simp add: ml_finding_def)
  next
    case (2 r)
    define x where "x = (rconfidence m + rconfidence r) / 2 + 1 / 10"
    from rs 2 have "0 \<le> rconfidence r" by simp
    with m have "0 \<le> x" by (simp add: x_def)
    moreover from 2 have "confidence g = min (95 / 100) x"
      by (simp add: hybrid_finding_def x_def)
    ultimately show ?thesis by simp
  next
    case (3 r)
    with rs show ?thesis by (auto simp: rule_finding_def)
  qed
qed

lemma detect_loop_bounds:
  assumes "scores_nonneg d"
  shows "detect_loop d ss = Inr fs \<Longrightarrow> f \<in> set fs \<Longrightarrow>
         0 \<le> confidence f \<and> confidence f \<le> 95 / 100"
proof (induction ss arbitrary: fs)
  case Nil
  then show ?case by simp
next
  case (Cons s ss)
  show ?case
  proof (cases "length (strip s) < 15")
    case True
    with Cons show ?thesis by simp
  next
    case False
    define ml where "ml = (if ml_available d \<and> classifier d \<noteq> None
        then ml_classify_sentence d s else None)"
    obtain rs where rs: "rule_based_classify s = Inr rs"
      by (simp add: rule_based_classify_eq)
    obtain rest where rest: "detect_loop d ss = Inr rest"
      using detect_loop_total by blast
    from False rs rest Cons.prems(1) have fs: "fs = combine_results ml rs s @ rest"
      by (simp add: ml_def Let_def)
    have "\<forall>m. ml = Some m \<longrightarrow> 0 \<le> rconfidence m \<and> rconfidence m \<le> 95 / 100"
      using assms ml_classify_sentence_bounds by (auto simp: ml_def split: if_splits)
    moreover have "\<forall>r\<in>set rs. 0 \<le> rconfidence r \<and> rconfidence r \<le> 9 / 10"
      using rs rule_based_classify_bounds by blast
    ultimately have "g \<in> set (combine_results ml rs s) \<Longrightarrow>
        0 \<le> confidence g \<and> confidence g \<le> 95 / 100" for g
      by (rule combine_results_bounds)
    with fs Cons.prems(2) Cons.IH [OF rest] show ?thesis
      by auto
  qed
qed

text \<open>
  Claim C3. Every finding \<open>detect_defects\<close> returns has a confidence between 0 and 0.95,
  for a classifier whose scores are not negative. The same holds of each finding the
  merger builds, rule-based, hybrid or from the signal alone, when the signal's
  confidence lies in that range and the rule-based ones between 0 and 0.9, as
  \<open>ml_classify_sentence\<close> and \<open>rule_based_classify\<close> ensure.
\<close>

theorem confidence_within_bounds:
  "(scores_nonneg d \<and> detect_defects d input = Inr fs \<and> f \<in> set fs
      \<longrightarrow> 0 \<le> confidence f \<and> confidence f \<le> 95 / 100)
   \<and> ((\<forall>m. ml = Some m \<longrightarrow> 0 \<le> rconfidence m \<and> rconfidence m \<le> 95 / 100)
       \<and> (\<forall>r\<in>set rs. 0 \<le> rconfidence r \<and> rconfidence r \<le> 9 / 10)
       \<and> g \<in> set (combine_results ml rs s)
      \<longrightarrow> 0 \<le> confidence g \<and> confidence g \<le> 95 / 100)
   \<and> (scores_nonneg d \<and> ml_classify_sentence d s = Some m
      \<longrightarrow> 0 \<le> rconfidence m \<and> rconfidence m \<le> 95 / 100)
   \<and> (rule_based_classify s = Inr rs' \<and> r \<in> set rs'
      \<longrightarrow> 0 \<le> rconfidence r \<and> rconfidence r \<le> 9 / 10)"
proof (intro conjI impI)
  assume a: "scores_nonneg d \<and> detect_defects d input = Inr fs \<and> f \<in> set fs"
  then have "detect_loop d (split_into_sentences input) = Inr fs"
    by (auto simp: detect_defects_def split: if_splits)
  with a have b: "0 \<le> confidence f \<and> confidence f \<le> 95 / 100"
    using detect_loop_bounds by blast
  from b show "0 \<le> confidence f" ..
  from b show "confidence f \<le> 95 / 100" ..
next
  assume a: "(\<forall>m. ml = Some m \<longrightarrow> 0 \<le> rconfidence m \<and> rconfidence m \<le> 95 / 100)
       \<and> (\<forall>r\<in>set rs. 0 \<le> rconfidence r \<and> rconfidence r \<le> 9 / 10)
       \<and> g \<in> set (combine_results ml rs s)"
  then have b: "0 \<le> confidence g \<and> confidence g \<le> 95 / 100"
    using combine_results_bounds [of ml rs g s] by blast
  from b show "0 \<le> confidence g" ..
  from b show "confidence g \<le> 95 / 100" ..
next
  assume a: "scores_nonneg d \<and> ml_classify_sentence d s = Some m"
  then have b: "0 \<le> rconfidence m \<and> rconfidence m \<le> 95 / 100"
    using ml_classify_sentence_bounds by blast
  from b show "0 \<le> rconfidence m" ..
  from b show "rconfidence m \<le> 95 / 100" ..
next
  assume a: "rule_based_classify s = Inr rs' \<and> r \<in> set rs'"
  then have b: "0 \<le> rconfidence r \<and> rconfidence r \<le> 9 / 10"
    using rule_based_classify_bounds by blast
  from b show "0 \<le> rconfidence r" ..
  from b show "rconfidence r \<le> 9 / 10" ..
qed

theorem confidence_within_bounds_witness:
  "scores_nonneg \<lparr>ml_available = True, classifier = Some (\<lambda>s. Inr [(''NEGATIVE'', 99 / 100)])\<rparr>
   \<and> detect_defects
        \<lparr>ml_available = True, classifier = Some (\<lambda>s. Inr [(''NEGATIVE'', 99 / 100)])\<rparr>
        ''The foundation shows visible cracks along the east wall.''
      = Inr [\<lparr>ftype = ''Cracks'',
              sentence = ''The foundation shows visible cracks along the east wall'',
              confidence = 95 / 100, severity = ''Low'',
              detection_method = ''hybrid_ml_rule''\<rparr>,
             \<lparr>ftype = ''Structural'',
              sentence = ''The foundation shows visible cracks along the east wall'',
              confidence = 85 / 100, severity = ''Low'',
              detection_method = ''rule_based''\<rparr>]
   \<and> combine_results
        (Some \<lparr>rtype = ''Cracks'', rconfidence = 95 / 100, rmethod = ''ml_enhanced''\<rparr>) []
        ''The foundation shows visible cracks along the east wall''
      = [\<lparr>ftype = ''Cracks'',
          sentence = ''The foundation shows visible cracks along the east wall'',
          confidence = 95 / 100, severity = ''Low'', detection_method = ''ml_only''\<rparr>]
   \<and> (0::rat) \<le> 95 / 100 \<and> (95 / 100 :: rat) \<le> 95 / 100"
proof -
  let ?d = "\<lparr>ml_available = True, classifier = Some (\<lambda>s. Inr [(''NEGATIVE'', 99 / 100)])\<rparr>"
  let ?s = "''The foundation shows visible cracks along the east wall''"
  let ?m = "\<lparr>rtype = ''Cracks'', rconfidence = 95 / 100, rmethod = ''ml_enhanced''\<rparr>"
  let ?r = "\<lparr>rtype = ''Cracks'', rconfidence = 85 / 100, rmethod = ''rule_based''\<rparr>"
  let ?rs = "[?r, \<lparr>rtype = ''Structural'', rconfidence = 85 / 100, rmethod = ''rule_based''\<rparr>]"
  let ?f = "\<lparr>ftype = ''Cracks'', sentence = ?s, confidence = 95 / 100, severity = ''Low'',
             detection_method = ''hybrid_ml_rule''\<rparr>"
  let ?f2 = "\<lparr>ftype = ''Structural'', sentence = ?s, confidence = 85 / 100, severity = ''Low'',
             detection_method = ''rule_based''\<rparr>"
  let ?g = "\<lparr>ftype = ''Cracks'', sentence = ?s, confidence = 95 / 100, severity = ''Low'',
             detection_method = ''ml_only''\<rparr>"
  have scores: "scores_nonneg ?d"
    by (simp add: scores_nonneg_def)
  have run: "detect_defects ?d ''The foundation shows visible cracks along the east wall.''
      = Inr [?f, ?f2]"
    by code_simp
  have signal: "ml_classify_sentence ?d ?s = Some ?m"
    by code_simp
  have rules: "rule_based_classify ?s = Inr ?rs"
    by code_simp
  have alone: "combine_results (Some ?m) [] ?s = [?g]"
    by code_simp
  have h1: "scores_nonneg ?d
      \<and> detect_defects ?d ''The foundation shows visible cracks along the east wall.''
          = Inr [?f, ?f2]
      \<and> ?f \<in> set [?f, ?f2]"
    using scores run by simp
  have h2: "(\<forall>m. Some ?m = Some m \<longrightarrow> 0 \<le> rconfidence m \<and> rconfidence m \<le> 95 / 100)
      \<and> (\<forall>r\<in>set []. 0 \<le> rconfidence r \<and> rconfidence r \<le> 9 / 10)
      \<and> ?g \<in> set (combine_results (Some ?m) [] ?s)"
    using alone by simp
  have h3: "scores_nonneg ?d \<and> ml_classify_sentence ?d ?s = Some ?m"
    using scores signal by simp
  have h4: "rule_based_classify ?s = Inr ?rs \<and> ?r \<in> set ?rs"
    using rules by simp
  note inst = confidence_within_bounds
    [where d = ?d and input = "''The foundation shows visible cracks along the east wall.''"
       and fs = "[?f, ?f2]" and f = ?f and ml = "Some ?m" and rs = "[]" and g = ?g
       and s = ?s and m = ?m and rs' = ?rs and r = ?r]
  from inst h1 h2 h3 h4 have "0 \<le> confidence ?f \<and> confidence ?f \<le> 95 / 100"
    by blast
  then have "(0::rat) \<le> 95 / 100 \<and> (95 / 100 :: rat) \<le> 95 / 100"
    by simp
  with scores run alone show ?thesis
    by (intro conjI) (elim conjE, assumption)+
qed

end
